theory Spec2Isabelle
  imports Main "HOL-Library.Sublist" "HOL-Library.Char_ord" "HOL-Library.List_Lexorder"
    "HOL-Library.Multiset"
begin

section \<open>Errors and the process environment\<close>

text \<open>
  The script \<^verbatim>\<open>make_distribution.py\<close> reads two pieces of process-wide state:
  the argument vector \<^verbatim>\<open>sys.argv\<close> and the environment \<^verbatim>\<open>os.environ\<close>.
  Both are passed explicitly. Every exception the script can raise in the modelled
  functions is a constructor of \<open>error\<close>; a function that can raise returns
  \<open>error + 'a\<close> with \<open>Inl\<close> for the exception. Python's \<^verbatim>\<open>None\<close> is \<open>None\<close> of
  an option type. Lines written to the console are modelled only for the command runner.
\<close>

datatype error =
    IndexError
  | AttributeError
  | UnicodeDecodeError
  | OSError string
  | FileExistsError
  | FileNotFoundError
  | NotADirectoryError
  | ShutilError
  | KeyboardInterrupt
  | AssertionError string
  | Exception string

type_synonym environ = "string \<rightharpoonup> string"

definition DISTRIBUTION_PATH :: string where
  "DISTRIBUTION_PATH = ''./distribution/mf6dev''"

definition MODFLOW6_PATH :: string where
  "MODFLOW6_PATH = ''../modflow6''"

definition MODFLOW6_EXAMPLES_PATH :: string where
  "MODFLOW6_EXAMPLES_PATH = ''../modflow6-examples''"

definition FORTRAN_COMPILER :: string where
  "FORTRAN_COMPILER = ''gfortran''"

definition KEEP :: bool where
  "KEEP = False"

section \<open>Configuration resolver\<close>

text \<open>
  Each of \<^verbatim>\<open>get_distribution_path\<close>, \<^verbatim>\<open>get_modflow6_path\<close>,
  \<^verbatim>\<open>get_modflow6_examples_path\<close> and \<^verbatim>\<open>get_compiler\<close> contains the same loop
  \<^verbatim>\<open>
  for idx, arg in enumerate(sys.argv):
      if arg == FLAG:
          variable = sys.argv[idx + 1]
  \<close>
  with its own flag. \<open>scan_argv\<close> is that loop over the rest of the enumeration: the
  flag and the assignment are parameters, the accumulator is the function's local state.
  \<^verbatim>\<open>sys.argv[idx + 1]\<close> raises \<^verbatim>\<open>IndexError\<close> when the flag is the last argument.
\<close>

primrec scan_argv ::
  "string \<Rightarrow> (string \<Rightarrow> 'a \<Rightarrow> 'a) \<Rightarrow> string list \<Rightarrow> (nat \<times> string) list \<Rightarrow> 'a \<Rightarrow> error + 'a"
where
  "scan_argv flag assign argv [] acc = Inr acc"
| "scan_argv flag assign argv (ia # rest) acc =
     (if snd ia = flag
      then (if fst ia + 1 < length argv
            then scan_argv flag assign argv rest (assign (argv ! (fst ia + 1)) acc)
            else Inl IndexError)
      else scan_argv flag assign argv rest acc)"

definition get_path ::
  "string \<Rightarrow> string \<Rightarrow> string \<Rightarrow> string list \<Rightarrow> environ \<Rightarrow> string option \<Rightarrow> error + string"
where
  "get_path dflt flag var argv env path =
     (let path1 = (case path of None \<Rightarrow> dflt | Some p \<Rightarrow> p) in
      case scan_argv flag (\<lambda>v _. v) argv (enumerate 0 argv) path1 of
        Inl e \<Rightarrow> Inl e
      | Inr path2 \<Rightarrow>
          (case env var of
             Some env_var \<Rightarrow> Inr env_var
           | None \<Rightarrow> Inr path2))"

definition get_distribution_path :: "string list \<Rightarrow> environ \<Rightarrow> string option \<Rightarrow> error + string" where
  "get_distribution_path argv env distribution_path =
     get_path DISTRIBUTION_PATH ''-dp'' ''MODFLOW6_DISTRIBUTION_PATH'' argv env distribution_path"

definition get_modflow6_path :: "string list \<Rightarrow> environ \<Rightarrow> string option \<Rightarrow> error + string" where
  "get_modflow6_path argv env modflow6_path =
     get_path MODFLOW6_PATH ''-mf6p'' ''MODFLOW6_PATH'' argv env modflow6_path"

definition get_modflow6_examples_path :: "string list \<Rightarrow> environ \<Rightarrow> string option \<Rightarrow> error + string" where
  "get_modflow6_examples_path argv env modflow6_examples_path =
     get_path MODFLOW6_EXAMPLES_PATH ''-mf6ep'' ''MODFLOW6_EXAMPLES_PATH'' argv env
       modflow6_examples_path"

text \<open>
  \<^verbatim>\<open>get_compiler\<close> keeps two locals, \<^verbatim>\<open>fortran_compiler\<close> and
  \<^verbatim>\<open>set_environmental_var\<close> (initially \<^verbatim>\<open>True\<close>, and assigned \<^verbatim>\<open>True\<close> again in
  the loop). It returns the compiler together with the environment it leaves behind.
\<close>

definition get_compiler ::
  "string list \<Rightarrow> environ \<Rightarrow> string option \<Rightarrow> error + (string \<times> environ)"
where
  "get_compiler argv env fortran_compiler =
     (case scan_argv ''-fc'' (\<lambda>v _. (Some v, True)) argv (enumerate 0 argv)
             (fortran_compiler, True) of
        Inl e \<Rightarrow> Inl e
      | Inr (fc1, sev1) \<Rightarrow>
          (let (fc2, sev2) =
                 (if fc1 = None
                  then (let fc = env ''FC'' in (fc, if fc \<noteq> None then False else sev1))
                  else (fc1, sev1));
               fc3 = (case fc2 of None \<Rightarrow> FORTRAN_COMPILER | Some c \<Rightarrow> c)
           in Inr (fc3, if sev2 then env(''FC'' \<mapsto> fc3) else env)))"

text \<open>
  \<^verbatim>\<open>get_keep\<close> assigns the default to a local \<^verbatim>\<open>ckeep\<close> that is never read, and
  returns \<^verbatim>\<open>keep\<close>. The loop assigns \<^verbatim>\<open>True\<close> at \<^verbatim>\<open>-k\<close> and \<^verbatim>\<open>--keep\<close>
  and reads no following argument.
\<close>

primrec scan_keep :: "string list \<Rightarrow> bool option \<Rightarrow> bool option" where
  "scan_keep [] keep = keep"
| "scan_keep (arg # rest) keep =
     scan_keep rest (if arg \<in> {''-k'', ''--keep''} then Some True else keep)"

definition get_keep :: "string list \<Rightarrow> bool option \<Rightarrow> bool option" where
  "get_keep argv keep =
     (let ckeep = (if keep = None then Some KEEP else None) in
      scan_keep argv keep)"

text \<open>
  The value a flag supplies on the command line, in the words of the specification:
  the argument that follows the last occurrence of the flag.
\<close>

definition flag_positions :: "string \<Rightarrow> string list \<Rightarrow> nat list" where
  "flag_positions flag argv = filter (\<lambda>i. argv ! i = flag) [0..<length argv]"

definition cli_value :: "string \<Rightarrow> string list \<Rightarrow> string option" where
  "cli_value flag argv =
     (if flag_positions flag argv = [] then None
      else Some (argv ! Suc (last (flag_positions flag argv))))"

text \<open>
  The precedence chain of the specification, \<^verbatim>\<open>a ?? b ?? c ?? default\<close>: the first
  layer that supplies a value wins.
\<close>

fun resolve_chain :: "'a option list \<Rightarrow> 'a \<Rightarrow> 'a" where
  "resolve_chain [] d = d"
| "resolve_chain (None # layers) d = resolve_chain layers d"
| "resolve_chain (Some v # layers) d = v"

section \<open>Strings of the Python runtime\<close>

text \<open>
  The script builds its messages with \<^verbatim>\<open>str.join\<close>, f-strings and \<^verbatim>\<open>str.format\<close>.
  \<open>str_int\<close> is \<^verbatim>\<open>str\<close> on an integer, \<open>repr_str\<close> and \<open>repr_list\<close> are
  \<^verbatim>\<open>repr\<close> on a string and on a list of strings (what \<^verbatim>\<open>f"{argv}"\<close> prints) for
  ASCII text: a string is quoted with \<^verbatim>\<open>'\<close> unless it contains \<^verbatim>\<open>'\<close> and no
  \<^verbatim>\<open>"\<close>; the backslash, the quote, tab, newline, carriage return and the other control
  characters are escaped. The substring test \<^verbatim>\<open>a in b\<close> on strings is \<open>sublist a b\<close>.
\<close>

definition LF :: char where
  "LF = CHR 0x0A"

fun join_str :: "string \<Rightarrow> string list \<Rightarrow> string" where
  "join_str sep [] = []"
| "join_str sep [x] = x"
| "join_str sep (x # y # ys) = x @ sep @ join_str sep (y # ys)"

definition digit_char :: "nat \<Rightarrow> char" where
  "digit_char d = char_of (of_char (CHR ''0'') + d)"

fun str_nat :: "nat \<Rightarrow> string" where
  "str_nat n = (if n < 10 then [digit_char n] else str_nat (n div 10) @ [digit_char (n mod 10)])"

declare str_nat.simps [simp del]

definition str_int :: "int \<Rightarrow> string" where
  "str_int i = (if i < 0 then CHR ''-'' # str_nat (nat (- i)) else str_nat (nat i))"

definition hex_char :: "nat \<Rightarrow> char" where
  "hex_char d = (if d < 10 then digit_char d else char_of (of_char (CHR ''a'') + (d - 10)))"

definition repr_char :: "char \<Rightarrow> char \<Rightarrow> string" where
  "repr_char quote c =
     (if c = CHR 0x5C then [CHR 0x5C, CHR 0x5C]
      else if c = quote then [CHR 0x5C, quote]
      else if c = CHR 0x09 then [CHR 0x5C, CHR ''t'']
      else if c = CHR 0x0A then [CHR 0x5C, CHR ''n'']
      else if c = CHR 0x0D then [CHR 0x5C, CHR ''r'']
      else if (of_char c :: nat) < 32 \<or> (of_char c :: nat) = 127
      then [CHR 0x5C, CHR ''x'', hex_char (of_char c div 16), hex_char (of_char c mod 16)]
      else [c])"

definition repr_str :: "string \<Rightarrow> string" where
  "repr_str s =
     (let quote = (if CHR 0x27 \<in> set s \<and> CHR 0x22 \<notin> set s then CHR 0x22 else CHR 0x27)
      in quote # concat (map (repr_char quote) s) @ [quote])"

definition repr_list :: "string list \<Rightarrow> string" where
  "repr_list xs = ''['' @ join_str '', '' (map repr_str xs) @ '']''"

section \<open>Command runner\<close>

text \<open>
  \<^verbatim>\<open>run_command\<close> starts a child with
  \<^verbatim>\<open>subprocess.Popen(argv, stdout=PIPE, stderr=STDOUT, cwd=pth)\<close> and talks to it with
  \<^verbatim>\<open>communicate\<close>. The child is a parameter: whether \<^verbatim>\<open>Popen\<close> itself raises (the
  executable or the directory does not exist), how long the child runs, what it writes,
  its exit status, and whether \<^verbatim>\<open>communicate\<close> raises something else.

  A byte string is represented by its UTF-8 decoding where it has one;
  \<^verbatim>\<open>bytes.decode("utf-8")\<close> raises \<^verbatim>\<open>UnicodeDecodeError\<close> on the others.
\<close>

datatype bytes = Utf8 string | Undecodable

fun decode :: "bytes \<Rightarrow> error + string" where
  "decode (Utf8 s) = Inr s"
| "decode Undecodable = Inl UnicodeDecodeError"

text \<open>
  The \<^verbatim>\<open>stderr\<close> argument of \<^verbatim>\<open>Popen\<close>. \<^verbatim>\<open>communicate\<close> returns the pair
  \<^verbatim>\<open>(stdout_data, stderr_data)\<close>, and \<^verbatim>\<open>stderr_data\<close> is \<^verbatim>\<open>None\<close> unless
  \<^verbatim>\<open>stderr=PIPE\<close> was given: with \<^verbatim>\<open>stderr=STDOUT\<close> the child's error stream is
  part of \<^verbatim>\<open>stdout_data\<close>.
\<close>

datatype redirect = PIPE | STDOUT | Inherited

fun stderr_data :: "redirect \<Rightarrow> bytes \<Rightarrow> bytes option" where
  "stderr_data PIPE err = Some err"
| "stderr_data STDOUT err = None"
| "stderr_data Inherited err = None"

record child =
  spawn_error :: "error option"
  runtime :: nat
  written :: bytes
  written_err :: bytes
  returncode :: int
  communicate_error :: "error option"
  second_communicate_error :: "error option"

datatype communicated = Returned bytes "bytes option" | TimeoutExpired | Raised error

text \<open>
  \<^verbatim>\<open>process.communicate(timeout=timeout)\<close>: with a timeout shorter than the child's run
  it raises \<^verbatim>\<open>TimeoutExpired\<close>; \<^verbatim>\<open>process.communicate()\<close> in a handler waits for
  the end and returns what was written.
\<close>

definition communicate :: "redirect \<Rightarrow> child \<Rightarrow> nat option \<Rightarrow> communicated" where
  "communicate err_to c timeout =
     (case communicate_error c of
        Some e \<Rightarrow> Raised e
      | None \<Rightarrow>
          (case timeout of
             None \<Rightarrow> Returned (written c) (stderr_data err_to (written_err c))
           | Some t \<Rightarrow>
               if t < runtime c then TimeoutExpired
               else Returned (written c) (stderr_data err_to (written_err c))))"

definition communicate_again :: "redirect \<Rightarrow> child \<Rightarrow> error + (bytes \<times> bytes option)" where
  "communicate_again err_to c =
     (case second_communicate_error c of
        Some e \<Rightarrow> Inl e
      | None \<Rightarrow> Inr (written c, stderr_data err_to (written_err c)))"

record 'a run =
  console :: "string list"
  killed :: bool
  outcome :: "error + 'a"

text \<open>
  The two handlers end with the same statement,
  \<^verbatim>\<open>buff = output.decode("utf-8") + unused_err.decode("utf-8")\<close>, before they assign the
  status. \<^verbatim>\<open>unused_err.decode\<close> on \<^verbatim>\<open>None\<close> raises \<^verbatim>\<open>AttributeError\<close>;
  an exception raised in a handler leaves the function.
\<close>

definition salvage :: "int \<Rightarrow> error + (bytes \<times> bytes option) \<Rightarrow> error + (string \<times> int)" where
  "salvage status again =
     (case again of
        Inl e \<Rightarrow> Inl e
      | Inr (output, unused_err) \<Rightarrow>
          (case decode output of
             Inl e \<Rightarrow> Inl e
           | Inr s1 \<Rightarrow>
               (case unused_err of
                  None \<Rightarrow> Inl AttributeError
                | Some err \<Rightarrow>
                    (case decode err of
                       Inl e \<Rightarrow> Inl e
                     | Inr s2 \<Rightarrow> Inr (s1 @ s2, status)))))"

definition run_process :: "child \<Rightarrow> nat option \<Rightarrow> bool \<times> (error + (string \<times> int))" where
  "run_process c timeout =
     (case communicate STDOUT c timeout of
        Returned output unused_err \<Rightarrow>
          (case decode output of
             Inr buff \<Rightarrow> (False, Inr (buff, returncode c))
           | Inl e \<Rightarrow> (False, salvage 101 (communicate_again STDOUT c)))
      | TimeoutExpired \<Rightarrow> (True, salvage 100 (communicate_again STDOUT c))
      | Raised e \<Rightarrow> (False, salvage 101 (communicate_again STDOUT c)))"

definition failure_message :: "string list \<Rightarrow> int \<Rightarrow> string" where
  "failure_message argv ierr =
     ''Failed to execute system command '' @ repr_list argv @ [LF] @
     ''return code '' @ str_int ierr"

definition run_command ::
  "child \<Rightarrow> string list \<Rightarrow> string \<Rightarrow> nat option \<Rightarrow> bool \<Rightarrow> bool \<Rightarrow> (string \<times> int) run"
where
  "run_command c argv pth timeout verbose terminate_on_failure =
     (let out0 = (if verbose
                  then [''Running system command '' @
                        ''('' @ join_str '' '' argv @ '') in directory: '' @ pth]
                  else [])
      in case spawn_error c of
           Some e \<Rightarrow> \<lparr>console = out0, killed = False, outcome = Inl e\<rparr>
         | None \<Rightarrow>
             (case run_process c timeout of
                (k, Inl e) \<Rightarrow> \<lparr>console = out0, killed = k, outcome = Inl e\<rparr>
              | (k, Inr (buff, ierr)) \<Rightarrow>
                  if terminate_on_failure \<and> ierr \<noteq> 0
                  then \<lparr>console = out0 @
                          (if verbose
                           then [''Failed to execute system command '' @ repr_list argv, buff]
                           else []),
                        killed = k,
                        outcome = Inl (Exception (failure_message argv ierr))\<rparr>
                  else \<lparr>console = out0, killed = k, outcome = Inr (buff, ierr)\<rparr>))"

text \<open>
  Three children used as concrete inputs: one that writes \<^verbatim>\<open>boom\<close> and exits with
  status 1, one that needs ten seconds, and one whose executable does not exist.
\<close>

definition failing_child :: child where
  "failing_child =
     \<lparr>spawn_error = None, runtime = 0, written = Utf8 ''boom'', written_err = Utf8 [],
      returncode = 1, communicate_error = None, second_communicate_error = None\<rparr>"

definition slow_child :: child where
  "slow_child =
     \<lparr>spawn_error = None, runtime = 10, written = Utf8 ''partial'', written_err = Utf8 [],
      returncode = 0, communicate_error = None, second_communicate_error = None\<rparr>"

definition missing_child :: child where
  "missing_child =
     \<lparr>spawn_error = Some FileNotFoundError, runtime = 0, written = Utf8 [],
      written_err = Utf8 [], returncode = 0, communicate_error = None,
      second_communicate_error = None\<rparr>"

section \<open>Documentation fragments\<close>














section \<open>Paths and directory trees\<close>

text \<open>
  The path functions of \<^verbatim>\<open>posixpath\<close> that the script uses. \<open>split_on\<close> is
  \<^verbatim>\<open>str.split\<close> with a one-character separator.
\<close>

definition path_join :: "string \<Rightarrow> string \<Rightarrow> string" where
  "path_join a b =
     (if b \<noteq> [] \<and> hd b = CHR ''/'' then b
      else if a = [] \<or> last a = CHR ''/'' then a @ b
      else a @ ''/'' @ b)"

fun split_on :: "char \<Rightarrow> string \<Rightarrow> string list" where
  "split_on c [] = [[]]"
| "split_on c (x # xs) =
     (if x = c then [] # split_on c xs
      else (case split_on c xs of
              [] \<Rightarrow> [[x]]
            | w # ws \<Rightarrow> (x # w) # ws))"

text \<open>
  The loop of \<^verbatim>\<open>normpath\<close> over the components, with the list \<^verbatim>\<open>new_comps\<close> as
  accumulator; \<open>rooted\<close> is \<^verbatim>\<open>initial_slashes\<close> being non-zero.
\<close>

fun norm_comps :: "bool \<Rightarrow> string list \<Rightarrow> string list \<Rightarrow> string list" where
  "norm_comps rooted [] new_comps = new_comps"
| "norm_comps rooted (part # comps) new_comps =
     (if part = [] \<or> part = ''.'' then norm_comps rooted comps new_comps
      else if part \<noteq> ''..'' \<or> (\<not> rooted \<and> new_comps = []) \<or>
              (new_comps \<noteq> [] \<and> last new_comps = ''..'')
      then norm_comps rooted comps (new_comps @ [part])
      else if new_comps \<noteq> [] then norm_comps rooted comps (butlast new_comps)
      else norm_comps rooted comps new_comps)"








section \<open>Run scripts for the examples\<close>














section \<open>Archiver\<close>





section \<open>Distribution scaffolder\<close>

text \<open>
  The file system is a finite table from absolute paths, as lists of components, to
  nodes; the first entry for a path is the valid one. A path string is resolved against
  the current directory and normalised as \<^verbatim>\<open>os.path.abspath\<close> does; symbolic links are
  not modelled. The empty string names nothing: \<^verbatim>\<open>os.path.isdir('')\<close> is false and
  \<^verbatim>\<open>os.makedirs('')\<close> raises \<^verbatim>\<open>FileNotFoundError\<close>.
\<close>

datatype node = Directory | File string

type_synonym filesystem = "(string list \<times> node) list"

definition resolve :: "string \<Rightarrow> string \<Rightarrow> string list" where
  "resolve cwd path =
     norm_comps True
       (split_on (CHR ''/'') (if take 1 path = ''/'' then path else path_join cwd path)) []"



fun is_file :: "node option \<Rightarrow> bool" where
  "is_file (Some (File text)) = True"
| "is_file other = False"

text \<open>
  \<^verbatim>\<open>os.makedirs(name, exist_ok)\<close> on a resolved path: it creates the missing
  directories from the top down; it raises when a component on the way is a file, and
  when the last component exists, unless that is a directory and \<^verbatim>\<open>exist_ok\<close> is set.
\<close>

definition makedirs_at :: "bool \<Rightarrow> filesystem \<Rightarrow> string list \<Rightarrow> error + filesystem" where
  "makedirs_at exist_ok fs p =
     (if list_ex (\<lambda>q. is_file (map_of fs q)) (butlast (prefixes p)) then Inl NotADirectoryError
      else (case map_of fs p of
              Some Directory \<Rightarrow> if exist_ok then Inr fs else Inl FileExistsError
            | Some (File text) \<Rightarrow> Inl FileExistsError
            | None \<Rightarrow>
                Inr (map (\<lambda>q. (q, Directory)) (filter (\<lambda>q. map_of fs q = None) (prefixes p))
                     @ fs)))"

text \<open>
  \<^verbatim>\<open>shutil.copytree(src, dst, dirs_exist_ok=True)\<close> on resolved paths, for a source
  directory and a destination outside each other: it makes the destination directory and
  copies every node below the source to the same place below the destination, over the
  files that are there. Where a file is in the way of a directory or a directory in the
  way of a file, and where one of the two trees is inside the other, the model gives an
  error; \<^verbatim>\<open>shutil\<close> fails there after a part of the copy, or does not end.
\<close>

definition nodes_below :: "filesystem \<Rightarrow> string list \<Rightarrow> (string list \<times> node) list" where
  "nodes_below fs src =
     map (\<lambda>(k, n). (drop (length src) k, n))
       (filter (\<lambda>(k, n). prefix src k \<and> map_of fs k = Some n) fs)"

definition in_the_way :: "node \<Rightarrow> node option \<Rightarrow> bool" where
  "in_the_way n there =
     (case there of
        None \<Rightarrow> False
      | Some Directory \<Rightarrow> n \<noteq> Directory
      | Some (File text) \<Rightarrow> n = Directory)"

definition copytree_at :: "filesystem \<Rightarrow> string list \<Rightarrow> string list \<Rightarrow> error + filesystem" where
  "copytree_at fs src dst =
     (case map_of fs src of
        None \<Rightarrow> Inl FileNotFoundError
      | Some (File text) \<Rightarrow> Inl NotADirectoryError
      | Some Directory \<Rightarrow>
          if prefix src dst \<or> prefix dst src then Inl ShutilError
          else (case makedirs_at True fs dst of
                  Inl e \<Rightarrow> Inl e
                | Inr fs1 \<Rightarrow>
                    if list_ex (\<lambda>(rest, n). in_the_way n (map_of fs1 (dst @ rest)))
                         (nodes_below fs src)
                    then Inl ShutilError
                    else Inr (map (\<lambda>(rest, n). (dst @ rest, n)) (nodes_below fs src) @ fs1)))"

text \<open>
  The operations of the scaffolder on path strings. After its guard,
  \<^verbatim>\<open>initialize_new_distribution\<close> is a straight line of them; \<open>run_ops\<close> carries them
  out in order, stops at the first that raises, and keeps the list of those that were
  carried out.
\<close>

datatype fs_op = Makedirs string | Copytree string string

fun apply_op :: "string \<Rightarrow> filesystem \<Rightarrow> fs_op \<Rightarrow> error + filesystem" where
  "apply_op cwd fs (Makedirs name) =
     (if name = [] then Inl FileNotFoundError else makedirs_at False fs (resolve cwd name))"
| "apply_op cwd fs (Copytree src dst) =
     (if src = [] \<or> dst = [] then Inl FileNotFoundError
      else copytree_at fs (resolve cwd src) (resolve cwd dst))"

record scaffold =
  done_ops :: "fs_op list"
  result :: "error + filesystem"

fun run_ops :: "string \<Rightarrow> fs_op list \<Rightarrow> fs_op list \<Rightarrow> filesystem \<Rightarrow> scaffold" where
  "run_ops cwd carried [] fs = \<lparr>done_ops = carried, result = Inr fs\<rparr>"
| "run_ops cwd carried (operation # rest) fs =
     (case apply_op cwd fs operation of
        Inl e \<Rightarrow> \<lparr>done_ops = carried, result = Inl e\<rparr>
      | Inr fs' \<Rightarrow> run_ops cwd (carried @ [operation]) rest fs')"






section \<open>Properties of the configuration resolver\<close>

subsection \<open>The argument scan\<close>

text \<open>
  The scan leaves its accumulator alone when the flag does not occur, raises when the flag
  is the last argument, and otherwise ends with the value that follows the last occurrence.
\<close>

lemma scan_argv_absent:
  "flag \<notin> set xs \<Longrightarrow> scan_argv flag assign argv (enumerate k xs) acc = Inr acc"
  by (induction xs arbitrary: k) auto

lemma scan_argv_last_flag:
  "argv = pre @ xs \<Longrightarrow> xs \<noteq> [] \<Longrightarrow> last xs = flag \<Longrightarrow>
   scan_argv flag assign argv (enumerate (length pre) xs) acc = Inl IndexError"
proof (induction xs arbitrary: pre acc)
  case Nil
  then show ?case by simp
next
  case (Cons x xs)
  show ?case
  proof (cases "xs = []")
    case True
    with Cons.prems show ?thesis by simp
  next
    case False
    have step: "scan_argv flag assign argv (enumerate (length (pre @ [x])) xs) acc' = Inl IndexError"
      for acc'
      using Cons.IH [of "pre @ [x]" acc'] Cons.prems False by simp
    from False Cons.prems have "length pre + 1 < length argv"
      by (cases xs) auto
    with step show ?thesis by simp
  qed
qed

lemma scan_argv_decomp:
  "argv = p @ pre @ flag # v # post \<Longrightarrow> flag \<notin> set (v # post) \<Longrightarrow>
   scan_argv flag (\<lambda>w _. f w) argv (enumerate (length p) (pre @ flag # v # post)) acc = Inr (f v)"
proof (induction pre arbitrary: p acc)
  case Nil
  then show ?case
    using scan_argv_absent [of flag "v # post" "\<lambda>w _. f w" argv "Suc (length p)" "f v"]
    by (simp add: nth_append)
next
  case (Cons x pre)
  have step: "scan_argv flag (\<lambda>w _. f w) argv
                (enumerate (length (p @ [x])) (pre @ flag # v # post)) acc' = Inr (f v)" for acc'
    using Cons.IH [of "p @ [x]" acc'] Cons.prems by simp
  from Cons.prems have "length p + 1 < length argv" by simp
  with step show ?case by simp
qed

lemma flag_positions_last:
  "flag \<notin> set ys \<Longrightarrow> flag_positions flag (pre @ flag # ys) \<noteq> [] \<and>
     last (flag_positions flag (pre @ flag # ys)) = length pre"
proof -
  assume a: "flag \<notin> set ys"
  let ?argv = "pre @ flag # ys"
  have split: "[0..<length ?argv] = [0..<length pre] @ [length pre] @ [Suc (length pre)..<length ?argv]"
    by (metis (no_types, lifting) append_Cons append_Nil length_append length_Cons less_add_Suc1 upt_add_eq_append upt_conv_Cons zero_le add_Suc_right)
  have tail: "filter (\<lambda>i. ?argv ! i = flag) [Suc (length pre)..<length ?argv] = []"
  proof -
    have "\<forall>i \<in> set [Suc (length pre)..<length ?argv]. ?argv ! i \<noteq> flag"
    proof
      fix i assume "i \<in> set [Suc (length pre)..<length ?argv]"
      then have i: "Suc (length pre) \<le> i" "i < length ?argv" by auto
      then have "?argv ! i = ys ! (i - Suc (length pre))"
        by (simp add: nth_append nth_Cons')
      moreover from i have "i - Suc (length pre) < length ys" by auto
      ultimately show "?argv ! i \<noteq> flag" using a by (metis nth_mem)
    qed
    then show ?thesis by (simp add: filter_empty_conv)
  qed
  have "filter (\<lambda>i. ?argv ! i = flag) [0..<length ?argv] =
          filter (\<lambda>i. ?argv ! i = flag) [0..<length pre] @
          filter (\<lambda>i. ?argv ! i = flag) [length pre] @
          filter (\<lambda>i. ?argv ! i = flag) [Suc (length pre)..<length ?argv]"
    by (subst split) (simp only: filter_append)
  also have "\<dots> = filter (\<lambda>i. ?argv ! i = flag) [0..<length pre] @ [length pre]"
    by (simp only: tail) simp
  finally have "flag_positions flag ?argv =
      filter (\<lambda>i. ?argv ! i = flag) [0..<length pre] @ [length pre]"
    by (simp only: flag_positions_def)
  then show ?thesis by simp
qed

lemma flag_positions_empty:
  "flag \<notin> set argv \<Longrightarrow> flag_positions flag argv = []"
  by (auto simp: flag_positions_def filter_empty_conv)

lemma cli_value_decomp:
  "flag \<notin> set (v # post) \<Longrightarrow> cli_value flag (pre @ flag # v # post) = Some v"
  using flag_positions_last [of flag "v # post" pre]
  by (simp add: cli_value_def nth_append)

lemma cli_value_absent: "flag \<notin> set argv \<Longrightarrow> cli_value flag argv = None"
  by (simp add: cli_value_def flag_positions_empty)

lemma argv_cases:
  obtains (absent) "flag \<notin> set argv"
  | (trailing) "argv \<noteq> []" "last argv = flag"
  | (valued) pre v post where "argv = pre @ flag # v # post" "flag \<notin> set (v # post)"
proof (cases "flag \<in> set argv")
  case False
  then show ?thesis by (rule absent)
next
  case True
  then obtain ys zs where d: "argv = ys @ flag # zs" "flag \<notin> set zs"
    by (meson split_list_last)
  show ?thesis
  proof (cases zs)
    case Nil
    with d show ?thesis by (intro trailing) auto
  next
    case (Cons v post)
    with d show ?thesis by (intro valued [of ys v post]) auto
  qed
qed

lemma scan_argv_const:
  "scan_argv flag (\<lambda>w _. f w) argv (enumerate 0 argv) acc =
     (if argv \<noteq> [] \<and> last argv = flag then Inl IndexError
      else Inr (case cli_value flag argv of None \<Rightarrow> acc | Some v \<Rightarrow> f v))"
proof (cases flag argv rule: argv_cases)
  case absent
  then have "argv = [] \<or> last argv \<noteq> flag" by (metis last_in_set)
  with absent show ?thesis
    by (auto simp: scan_argv_absent cli_value_absent)
next
  case trailing
  then show ?thesis
    using scan_argv_last_flag [of argv "[]" argv flag] by simp
next
  case (valued pre v post)
  then have "last argv \<noteq> flag" by (metis append_is_Nil_conv last_appendR last_in_set last_ConsR list.distinct(1) list.set_intros(1) set_ConsD)
  with valued show ?thesis
    using scan_argv_decomp [of argv "[]" pre flag v post f acc]
    by (simp add: cli_value_decomp)
qed

lemma cli_value_Nil: "cli_value flag [] = None"
  by (simp add: cli_value_def flag_positions_def)

lemma get_path_resolved:
  "get_path dflt flag var argv env caller =
     (if argv \<noteq> [] \<and> last argv = flag then Inl IndexError
      else Inr (resolve_chain [env var, cli_value flag argv, caller] dflt))"
  by (cases "env var"; cases "cli_value flag argv"; cases caller)
     (auto simp: get_path_def scan_argv_const cli_value_Nil)

lemma get_compiler_resolved:
  "get_compiler argv env caller =
     (if argv \<noteq> [] \<and> last argv = ''-fc'' then Inl IndexError
      else Inr (resolve_chain [cli_value ''-fc'' argv, caller, env ''FC''] FORTRAN_COMPILER,
                if cli_value ''-fc'' argv = None \<and> caller = None \<and> env ''FC'' \<noteq> None
                then env
                else env(''FC'' \<mapsto>
                  resolve_chain [cli_value ''-fc'' argv, caller, env ''FC''] FORTRAN_COMPILER)))"
  by (cases "env ''FC''"; cases "cli_value ''-fc'' argv"; cases caller)
     (auto simp: get_compiler_def scan_argv_const cli_value_Nil)

lemma scan_keep_eq:
  "scan_keep argv keep = (if ''-k'' \<in> set argv \<or> ''--keep'' \<in> set argv then Some True else keep)"
  by (induction argv arbitrary: keep) auto

subsection \<open>Precedence of the layers\<close>

text \<open>
  Claim C1, as the code has it. Each path resolver returns
  \<^verbatim>\<open>environment ?? command-line flag ?? caller-supplied ?? built-in default\<close>, and
  raises \<^verbatim>\<open>IndexError\<close> exactly when its flag is the last argument. The compiler
  resolver has another order: \<^verbatim>\<open>-fc\<close> flag, then the caller's value, then the
  environment variable \<^verbatim>\<open>FC\<close>, then the default. The keep flag has no environment
  layer: \<^verbatim>\<open>-k\<close> or \<^verbatim>\<open>--keep\<close> gives \<^verbatim>\<open>True\<close>, and without them a value
  supplied by the caller is returned as it is.
\<close>

theorem resolver_precedence:
  "get_distribution_path argv env dp =
     (if argv \<noteq> [] \<and> last argv = ''-dp'' then Inl IndexError
      else Inr (resolve_chain [env ''MODFLOW6_DISTRIBUTION_PATH'', cli_value ''-dp'' argv, dp]
                  DISTRIBUTION_PATH))
   \<and> get_modflow6_path argv env mp =
     (if argv \<noteq> [] \<and> last argv = ''-mf6p'' then Inl IndexError
      else Inr (resolve_chain [env ''MODFLOW6_PATH'', cli_value ''-mf6p'' argv, mp] MODFLOW6_PATH))
   \<and> get_modflow6_examples_path argv env ep =
     (if argv \<noteq> [] \<and> last argv = ''-mf6ep'' then Inl IndexError
      else Inr (resolve_chain [env ''MODFLOW6_EXAMPLES_PATH'', cli_value ''-mf6ep'' argv, ep]
                  MODFLOW6_EXAMPLES_PATH))
   \<and> map_sum id fst (get_compiler argv env fc) =
     (if argv \<noteq> [] \<and> last argv = ''-fc'' then Inl IndexError
      else Inr (resolve_chain [cli_value ''-fc'' argv, fc, env ''FC''] FORTRAN_COMPILER))
   \<and> (''-k'' \<in> set argv \<or> ''--keep'' \<in> set argv \<longrightarrow> get_keep argv keep = Some True)
   \<and> (''-k'' \<notin> set argv \<and> ''--keep'' \<notin> set argv \<longrightarrow> get_keep argv (Some b) = Some b)"
  by (simp add: get_distribution_path_def get_modflow6_path_def get_modflow6_examples_path_def
        get_path_resolved get_compiler_resolved get_keep_def scan_keep_eq Let_def)

text \<open>
  Three conflicting layers for the distribution path: the environment value wins. The
  other resolvers, on the same arguments, fall through to the caller's value and to the
  default.
\<close>

theorem resolver_precedence_witness:
  "get_distribution_path [''make_distribution.py'', ''-dp'', ''cli'']
     [''MODFLOW6_DISTRIBUTION_PATH'' \<mapsto> ''env''] (Some ''caller'') = Inr ''env''
   \<and> get_modflow6_path [''make_distribution.py'', ''-dp'', ''cli'']
     [''MODFLOW6_DISTRIBUTION_PATH'' \<mapsto> ''env''] (Some ''caller'') = Inr ''caller''
   \<and> map_sum id fst (get_compiler [''make_distribution.py'', ''-dp'', ''cli'']
     [''MODFLOW6_DISTRIBUTION_PATH'' \<mapsto> ''env''] None) = Inr ''gfortran''
   \<and> get_keep [''make_distribution.py'', ''-dp'', ''cli''] (Some True) = Some True"
proof -
  have c1: "cli_value ''-dp'' [''make_distribution.py'', ''-dp'', ''cli''] = Some ''cli''"
    by code_simp
  have c2: "cli_value ''-mf6p'' [''make_distribution.py'', ''-dp'', ''cli''] = None"
    by code_simp
  have c3: "cli_value ''-fc'' [''make_distribution.py'', ''-dp'', ''cli''] = None"
    by code_simp
  show ?thesis
    using resolver_precedence [of "[''make_distribution.py'', ''-dp'', ''cli'']"
        "[''MODFLOW6_DISTRIBUTION_PATH'' \<mapsto> ''env'']" "Some ''caller''" "Some ''caller''"
        None None "Some True" True]
    by (simp add: c1 c2 c3 FORTRAN_COMPILER_def)
qed

text \<open>
  Claim C1 as stated fails for the compiler: with \<^verbatim>\<open>FC=icc\<close> in the environment
  and \<^verbatim>\<open>-fc ifort\<close> on the command line, both layers supply a value and the
  command-line value is returned.
\<close>

theorem compiler_flag_beats_environment_counterexample:
  "[''FC'' \<mapsto> ''icc''] ''FC'' = Some ''icc''
   \<and> cli_value ''-fc'' [''make_distribution.py'', ''-fc'', ''ifort''] = Some ''ifort''
   \<and> map_sum id fst
        (get_compiler [''make_distribution.py'', ''-fc'', ''ifort''] [''FC'' \<mapsto> ''icc''] None)
       = Inr ''ifort''"
proof -
  have c: "cli_value ''-fc'' [''make_distribution.py'', ''-fc'', ''ifort''] = Some ''ifort''"
    by code_simp
  show ?thesis
    by (simp add: c get_compiler_resolved)
qed

subsection \<open>The keep flag\<close>

text \<open>
  Claim C8 at the input \<^verbatim>\<open>sys.argv = ['make_distribution.py']\<close>, \<^verbatim>\<open>keep=None\<close>:
  the default is stored in \<^verbatim>\<open>ckeep\<close>, which is never read, and the function returns
  \<^verbatim>\<open>None\<close>, not \<^verbatim>\<open>False\<close>.
\<close>

theorem get_keep_default_not_applied:
  "get_keep [''make_distribution.py''] None = None"
  by (simp add: get_keep_def)

subsection \<open>The compiler and the environment\<close>

text \<open>
  Claim C9. When \<^verbatim>\<open>get_compiler\<close> returns, the environment is unchanged if the
  value came from the variable \<^verbatim>\<open>FC\<close> (no \<^verbatim>\<open>-fc\<close> flag, no caller value,
  \<^verbatim>\<open>FC\<close> set), and otherwise it is the old environment with \<^verbatim>\<open>FC\<close> set to the
  returned compiler.
\<close>

theorem get_compiler_environment:
  "get_compiler argv env caller = Inr (r, env') \<Longrightarrow>
     (if cli_value ''-fc'' argv = None \<and> caller = None \<and> env ''FC'' \<noteq> None
      then env ''FC'' = Some r \<and> env' = env
      else env' = env(''FC'' \<mapsto> r))"
proof -
  assume g: "get_compiler argv env caller = Inr (r, env')"
  let ?r = "resolve_chain [cli_value ''-fc'' argv, caller, env ''FC''] FORTRAN_COMPILER"
  have nl: "\<not> (argv \<noteq> [] \<and> last argv = ''-fc'')"
  proof
    assume "argv \<noteq> [] \<and> last argv = ''-fc''"
    with g show False by (simp add: get_compiler_resolved)
  qed
  from g nl have r: "r = ?r"
    and e: "env' = (if cli_value ''-fc'' argv = None \<and> caller = None \<and> env ''FC'' \<noteq> None
                    then env else env(''FC'' \<mapsto> ?r))"
    by (auto simp: get_compiler_resolved)
  show ?thesis
  proof (cases "cli_value ''-fc'' argv = None \<and> caller = None \<and> env ''FC'' \<noteq> None")
    case True
    then obtain x where x: "env ''FC'' = Some x" by auto
    with True r have "r = x" by simp
    with True x e show ?thesis by simp
  next
    case False
    with e r show ?thesis by (simp only: if_False)
  qed
qed

text \<open>
  Both branches at concrete inputs: the value read from \<^verbatim>\<open>FC\<close> leaves the
  environment as it was; the value of the flag is written to \<^verbatim>\<open>FC\<close>.
\<close>

theorem get_compiler_environment_witness:
  "get_compiler [''make_distribution.py''] [''FC'' \<mapsto> ''icc''] None
     = Inr (''icc'', [''FC'' \<mapsto> ''icc''])
   \<and> get_compiler [''make_distribution.py'', ''-fc'', ''ifort''] [''FC'' \<mapsto> ''icc''] None
     = Inr (''ifort'', [''FC'' \<mapsto> ''ifort''])"
proof -
  have c1: "cli_value ''-fc'' [''make_distribution.py''] = None"
    by code_simp
  have c2: "cli_value ''-fc'' [''make_distribution.py'', ''-fc'', ''ifort''] = Some ''ifort''"
    by code_simp
  obtain r1 e1 where g1:
    "get_compiler [''make_distribution.py''] [''FC'' \<mapsto> ''icc''] None = Inr (r1, e1)"
    by (simp add: get_compiler_resolved c1)
  obtain r2 e2 where g2:
    "get_compiler [''make_distribution.py'', ''-fc'', ''ifort''] [''FC'' \<mapsto> ''icc''] None
       = Inr (r2, e2)"
    by (simp add: get_compiler_resolved c2)
  have r2: "r2 = ''ifort''"
    using g2 by (simp add: get_compiler_resolved c2)
  show ?thesis
    using get_compiler_environment [OF g1] get_compiler_environment [OF g2] g1 g2 r2
    by (simp add: c1 c2)
qed

subsection \<open>Repeated flags\<close>

text \<open>
  Claim C10 as stated fails for a path resolver when its environment variable is set:
  the flag \<^verbatim>\<open>-dp\<close> occurs twice, and the environment value is returned, not the value
  after the last occurrence.
\<close>

theorem repeated_flag_env_counterexample:
  "get_distribution_path [''make_distribution.py'', ''-dp'', ''a'', ''-dp'', ''b'']
     [''MODFLOW6_DISTRIBUTION_PATH'' \<mapsto> ''e''] None = Inr ''e''"
  by (simp add: get_distribution_path_def get_path_resolved)

text \<open>
  Claim C10, as the code has it. When a flag occurs more than once and its last
  occurrence is followed by the value \<open>v\<close>, a path resolver returns \<open>v\<close> unless its
  environment variable is set, in which case it returns the environment value; the
  compiler resolver returns \<open>v\<close> and writes it to \<^verbatim>\<open>FC\<close>.
\<close>

theorem repeated_flag_last_value:
  assumes "argv = pre @ flag # v # post" and "flag \<notin> set (v # post)" and "flag \<in> set pre"
  shows "(flag = ''-dp'' \<longrightarrow> get_distribution_path argv env c =
            Inr (case env ''MODFLOW6_DISTRIBUTION_PATH'' of None \<Rightarrow> v | Some e \<Rightarrow> e))
       \<and> (flag = ''-mf6p'' \<longrightarrow> get_modflow6_path argv env c =
            Inr (case env ''MODFLOW6_PATH'' of None \<Rightarrow> v | Some e \<Rightarrow> e))
       \<and> (flag = ''-mf6ep'' \<longrightarrow> get_modflow6_examples_path argv env c =
            Inr (case env ''MODFLOW6_EXAMPLES_PATH'' of None \<Rightarrow> v | Some e \<Rightarrow> e))
       \<and> (flag = ''-fc'' \<longrightarrow> get_compiler argv env c = Inr (v, env(''FC'' \<mapsto> v)))"
proof -
  have cv: "cli_value flag argv = Some v"
    using assms by (simp add: cli_value_decomp)
  have nl: "\<not> (argv \<noteq> [] \<and> last argv = flag)"
    using assms(1,2) by (cases post rule: rev_cases) auto
  have p: "get_path d flag var argv env c = Inr (case env var of None \<Rightarrow> v | Some e \<Rightarrow> e)"
    for d var
    using cv nl by (cases "env var") (simp_all add: get_path_resolved)
  have f: "flag = ''-fc'' \<Longrightarrow> get_compiler argv env c = Inr (v, env(''FC'' \<mapsto> v))"
    using cv nl by (simp add: get_compiler_resolved)
  show ?thesis
    unfolding get_distribution_path_def get_modflow6_path_def get_modflow6_examples_path_def
    using p f by blast
qed

text \<open>
  Two occurrences of \<^verbatim>\<open>-dp\<close> with no environment variable, and two occurrences of
  \<^verbatim>\<open>-fc\<close> with \<^verbatim>\<open>FC\<close> set.
\<close>

theorem repeated_flag_last_value_witness:
  "get_distribution_path [''make_distribution.py'', ''-dp'', ''a'', ''-dp'', ''b'']
     Map.empty None = Inr ''b''
   \<and> get_compiler [''make_distribution.py'', ''-fc'', ''a'', ''-fc'', ''b'']
     [''FC'' \<mapsto> ''icc''] None = Inr (''b'', [''FC'' \<mapsto> ''b''])"
  using repeated_flag_last_value [of "[''make_distribution.py'', ''-dp'', ''a'', ''-dp'', ''b'']"
      "[''make_distribution.py'', ''-dp'', ''a'']" "''-dp''" "''b''" "[]" Map.empty None]
    repeated_flag_last_value [of "[''make_distribution.py'', ''-fc'', ''a'', ''-fc'', ''b'']"
      "[''make_distribution.py'', ''-fc'', ''a'']" "''-fc''" "''b''" "[]" "[''FC'' \<mapsto> ''icc'']" None]
  by simp

section \<open>Properties of the command runner\<close>

text \<open>
  With \<^verbatim>\<open>stderr=STDOUT\<close> neither handler can finish: \<^verbatim>\<open>unused_err\<close> is
  \<^verbatim>\<open>None\<close>. So every status \<^verbatim>\<open>run_command\<close> returns is the exit status of the
  child, and the child was not killed.
\<close>

lemma salvage_STDOUT: "salvage status (communicate_again STDOUT c) = Inr r \<Longrightarrow> False"
  by (auto simp: salvage_def communicate_again_def split: option.splits sum.splits)

lemma run_process_returned:
  assumes "run_process c timeout = (k, Inr (buff, ierr))"
  shows "k = False \<and> ierr = returncode c \<and> decode (written c) = Inr buff"
proof (cases "communicate STDOUT c timeout")
  case (Returned out e)
  then have w: "out = written c"
    by (auto simp: communicate_def split: option.splits if_splits)
  show ?thesis
  proof (cases "decode out")
    case (Inl err)
    with Returned assms have "salvage 101 (communicate_again STDOUT c) = Inr (buff, ierr)"
      by (simp add: run_process_def)
    then show ?thesis using salvage_STDOUT by blast
  next
    case (Inr s)
    with Returned assms w show ?thesis by (simp add: run_process_def)
  qed
next
  case TimeoutExpired
  with assms have "salvage 100 (communicate_again STDOUT c) = Inr (buff, ierr)"
    by (simp add: run_process_def)
  then show ?thesis using salvage_STDOUT by blast
next
  case (Raised e)
  with assms have "salvage 101 (communicate_again STDOUT c) = Inr (buff, ierr)"
    by (simp add: run_process_def)
  then show ?thesis using salvage_STDOUT by blast
qed

lemma run_command_status_is_returncode:
  assumes "outcome (run_command c argv pth timeout verbose terminate_on_failure) = Inr (buff, ierr)"
  shows "ierr = returncode c \<and> decode (written c) = Inr buff"
proof -
  obtain k r where rp: "run_process c timeout = (k, r)" by (cases "run_process c timeout")
  from assms rp obtain b i where "r = Inr (b, i)" "b = buff" "i = ierr"
    by (auto simp: run_command_def Let_def split: option.splits sum.splits if_splits)
  with rp run_process_returned [of c timeout k buff ierr] show ?thesis by simp
qed

lemma repr_false: "repr_list [''false''] = ''['' @ [CHR 0x27] @ ''false'' @ [CHR 0x27] @ '']''"
  by code_simp

lemma rp_failing: "run_process failing_child None = (False, Inr (''boom'', 1))"
  by (simp add: run_process_def communicate_def failing_child_def)

lemma spawn_failing: "spawn_error failing_child = None"
  by (simp add: failing_child_def)

text \<open>
  Claim C2 as stated fails: the child writes \<^verbatim>\<open>boom\<close> and exits with status 1, the
  call asks for escalation, and the exception raised carries the text
  \<^verbatim>\<open>Failed to execute system command ['false']\<close>, a newline and
  \<^verbatim>\<open>return code 1\<close>. The captured output \<^verbatim>\<open>boom\<close> is not in it.
\<close>

theorem exception_payload_counterexample:
  "decode (written failing_child) = Inr ''boom''
   \<and> outcome (run_command failing_child [''false''] ''.'' None False True)
       = Inl (Exception (''Failed to execute system command ['' @ [CHR 0x27] @ ''false'' @
                         [CHR 0x27] @ '']'' @ [LF] @ ''return code 1''))
   \<and> \<not> sublist ''boom'' (''Failed to execute system command ['' @ [CHR 0x27] @ ''false'' @
                         [CHR 0x27] @ '']'' @ [LF] @ ''return code 1'')"
proof -
  have a: "decode (written failing_child) = Inr ''boom''" by (simp add: failing_child_def)
  have i: "str_int 1 = ''1''" by code_simp
  have b: "outcome (run_command failing_child [''false''] ''.'' None False True)
       = Inl (Exception (''Failed to execute system command ['' @ [CHR 0x27] @ ''false'' @
                         [CHR 0x27] @ '']'' @ [LF] @ ''return code 1''))"
    using spawn_failing
    by (simp add: run_command_def rp_failing failure_message_def repr_false i)
  have c: "\<not> sublist ''boom'' (''Failed to execute system command ['' @ [CHR 0x27] @ ''false'' @
                         [CHR 0x27] @ '']'' @ [LF] @ ''return code 1'')"
    by code_simp
  from a b c show ?thesis by blast
qed

text \<open>
  Claim C2, as the code has it. When the child was started and the run gives the output
  \<open>buff\<close> and a non-zero status \<open>ierr\<close>, the call with \<^verbatim>\<open>terminate_on_failure=True\<close>
  raises \<^verbatim>\<open>Exception\<close> with the text
  \<^verbatim>\<open>Failed to execute system command {argv}\nreturn code {ierr}\<close>; the captured output
  is the last line printed when \<^verbatim>\<open>verbose\<close> is set and nothing is printed otherwise.
  The call with \<^verbatim>\<open>terminate_on_failure=False\<close> returns the pair of the output and
  the status.
\<close>

theorem run_command_escalation:
  assumes "spawn_error c = None"
    and "run_process c timeout = (k, Inr (buff, ierr))"
    and "ierr \<noteq> 0"
  shows "outcome (run_command c argv pth timeout verbose True)
           = Inl (Exception (''Failed to execute system command '' @ repr_list argv @ [LF] @
                             ''return code '' @ str_int ierr))
       \<and> (verbose \<longrightarrow> last (console (run_command c argv pth timeout verbose True)) = buff)
       \<and> (\<not> verbose \<longrightarrow> console (run_command c argv pth timeout verbose True) = [])
       \<and> outcome (run_command c argv pth timeout verbose False) = Inr (buff, ierr)"
  using assms by (simp add: run_command_def failure_message_def)

text \<open>
  The failing child again, with \<^verbatim>\<open>verbose=True\<close>: the exception, the printed
  output, and the pair returned without escalation.
\<close>

theorem run_command_escalation_witness:
  "outcome (run_command failing_child [''false''] ''.'' None True True)
     = Inl (Exception (''Failed to execute system command ['' @ [CHR 0x27] @ ''false'' @
                       [CHR 0x27] @ '']'' @ [LF] @ ''return code 1''))
   \<and> last (console (run_command failing_child [''false''] ''.'' None True True)) = ''boom''
   \<and> outcome (run_command failing_child [''false''] ''.'' None True False) = Inr (''boom'', 1)"
proof -
  have s: "spawn_error failing_child = None" by (simp add: failing_child_def)
  have n: "(1::int) \<noteq> 0" by simp
  have i: "str_int 1 = ''1''" by code_simp
  show ?thesis
    using run_command_escalation [OF s rp_failing n, of "[''false'']" "''.''" True]
    by (simp add: repr_false i)
qed

text \<open>
  Claim C3 at two inputs. A child that runs ten seconds under \<^verbatim>\<open>timeout=1\<close> is
  killed, and the handler raises \<^verbatim>\<open>AttributeError\<close> at \<^verbatim>\<open>unused_err.decode\<close>
  before it assigns the status 100. A missing executable makes \<^verbatim>\<open>Popen\<close> raise
  \<^verbatim>\<open>FileNotFoundError\<close> outside the \<^verbatim>\<open>try\<close> statement, so no status 101 is
  returned either.
\<close>

theorem run_command_sentinels_unreachable:
  "run_command slow_child [''sleep'', ''10''] ''.'' (Some 1) False False
     = \<lparr>console = [], killed = True, outcome = Inl AttributeError\<rparr>
   \<and> run_command missing_child [''nosuchprogram''] ''.'' None False False
     = \<lparr>console = [], killed = False, outcome = Inl FileNotFoundError\<rparr>"
  by (simp add: run_command_def run_process_def communicate_def communicate_again_def
        salvage_def slow_child_def missing_child_def)

section \<open>Properties of the fragment check\<close>









section \<open>Properties of the run scripts\<close>








subsection \<open>Different folders, different scripts\<close>


















section \<open>Properties of the archiver\<close>





section \<open>Properties of the scaffolder\<close>

subsection \<open>The file-system operations\<close>






lemma nodes_below_iff:
  "(rest, n) \<in> set (nodes_below fs src) \<longleftrightarrow> map_of fs (src @ rest) = Some n"
proof
  assume "(rest, n) \<in> set (nodes_below fs src)"
  then obtain k where k: "prefix src k" "map_of fs k = Some n" and r: "rest = drop (length src) k"
    by (auto simp: nodes_below_def)
  from k(1) r have "src @ rest = k" by (auto simp: prefix_def)
  with k(2) show "map_of fs (src @ rest) = Some n" by (simp only:)
next
  assume a: "map_of fs (src @ rest) = Some n"
  then have "(src @ rest, n) \<in> set fs" by (rule map_of_SomeD)
  with a have "(src @ rest, n) \<in> set (filter (\<lambda>(k, n). prefix src k \<and> map_of fs k = Some n) fs)"
    by simp
  then have "(\<lambda>(k, n). (drop (length src) k, n)) (src @ rest, n) \<in> set (nodes_below fs src)"
    unfolding nodes_below_def set_map by (rule imageI)
  then show "(rest, n) \<in> set (nodes_below fs src)" by simp
qed

lemma map_of_copied:
  "map_of (map (\<lambda>(rest, n). (dst @ rest, n)) (nodes_below fs src)) k =
     (if prefix dst k then map_of fs (src @ drop (length dst) k) else None)"
proof (cases "prefix dst k")
  case False
  then have "k \<notin> fst ` set (map (\<lambda>(rest, n). (dst @ rest, n)) (nodes_below fs src))"
    by (auto simp: prefix_def)
  then have "map_of (map (\<lambda>(rest, n). (dst @ rest, n)) (nodes_below fs src)) k = None"
    by (metis map_of_eq_None_iff)
  with False show ?thesis by simp
next
  case True
  then obtain rest where k: "k = dst @ rest" by (auto simp: prefix_def)
  let ?new = "map (\<lambda>(rest, n). (dst @ rest, n)) (nodes_below fs src)"
  show ?thesis
  proof (cases "map_of fs (src @ rest)")
    case None
    have "k \<notin> fst ` set ?new"
    proof
      assume "k \<in> fst ` set ?new"
      then obtain r n where "(r, n) \<in> set (nodes_below fs src)" "k = dst @ r" by auto
      with k None show False by (auto simp: nodes_below_iff)
    qed
    then have "map_of ?new k = None" by (metis map_of_eq_None_iff)
    with None k show ?thesis by simp
  next
    case (Some n)
    then have "(rest, n) \<in> set (nodes_below fs src)" by (simp add: nodes_below_iff)
    then have "(k, n) \<in> set ?new" using k by force
    then obtain n' where n': "map_of ?new k = Some n'"
      by (metis weak_map_of_SomeI)
    then have "(k, n') \<in> set ?new" by (rule map_of_SomeD)
    then obtain r where "(r, n') \<in> set (nodes_below fs src)" "k = dst @ r" by auto
    with k have "map_of fs (src @ rest) = Some n'" by (auto simp: nodes_below_iff)
    with Some n' k show ?thesis by simp
  qed
qed

lemma copytree_at_lookup:
  assumes "copytree_at fs src dst = Inr fs'"
  obtains fs1 where "makedirs_at True fs dst = Inr fs1"
    and "\<And>k. map_of fs' k =
           (if prefix dst k \<and> map_of fs (src @ drop (length dst) k) \<noteq> None
            then map_of fs (src @ drop (length dst) k) else map_of fs1 k)"
    and "\<And>rest n. map_of fs (src @ rest) = Some n \<Longrightarrow> \<not> in_the_way n (map_of fs1 (dst @ rest))"
    and "map_of fs src = Some Directory"
proof -
  from assms have s: "map_of fs src = Some Directory"
    by (auto simp: copytree_at_def split: option.splits node.splits)
  from assms s obtain fs1 where m: "makedirs_at True fs dst = Inr fs1"
    by (auto simp: copytree_at_def split: if_splits sum.splits)
  from assms s m have c: "\<not> list_ex (\<lambda>(rest, n). in_the_way n (map_of fs1 (dst @ rest)))
                              (nodes_below fs src)"
    and f: "fs' = map (\<lambda>(rest, n). (dst @ rest, n)) (nodes_below fs src) @ fs1"
    by (auto simp: copytree_at_def split: if_splits)
  have l: "map_of fs' k =
           (if prefix dst k \<and> map_of fs (src @ drop (length dst) k) \<noteq> None
            then map_of fs (src @ drop (length dst) k) else map_of fs1 k)" for k
    unfolding f by (auto simp: map_add_def map_of_copied split: option.splits)
  have w: "\<not> in_the_way n (map_of fs1 (dst @ rest))" if "map_of fs (src @ rest) = Some n"
    for rest n
    using c that by (auto simp: list_ex_iff nodes_below_iff)
  from m l w s show ?thesis by (rule that)
qed

lemma copytree_at_copies:
  assumes "copytree_at fs src dst = Inr fs'" and "map_of fs (src @ rest) = Some n"
  shows "map_of fs' (dst @ rest) = Some n"
  using assms(1)
proof (rule copytree_at_lookup)
  fix fs1
  assume l: "\<And>k. map_of fs' k =
           (if prefix dst k \<and> map_of fs (src @ drop (length dst) k) \<noteq> None
            then map_of fs (src @ drop (length dst) k) else map_of fs1 k)"
  from l [of "dst @ rest"] assms(2) show ?thesis by simp
qed



subsection \<open>The sequence of operations\<close>




lemma run_ops_carried:
  "\<exists>more. done_ops (run_ops cwd carried ops fs) = carried @ more"
proof (induction ops arbitrary: carried fs)
  case Nil
  then show ?case by simp
next
  case (Cons operation ops)
  show ?case
  proof (cases "apply_op cwd fs operation")
    case (Inl e)
    then show ?thesis by simp
  next
    case (Inr fs1)
    from Cons.IH [of "carried @ [operation]" fs1] Inr show ?thesis by auto
  qed
qed







end
